theory Spec2Isabelle
  imports Complex_Main "HOL-Library.Sublist" "HOL-Library.Multiset"
begin

section \<open>Values handed over by the two upstream feeds\<close>

text \<open>
  Both feeds are read with \<^verbatim>\<open>r.json()\<close>, so a fetched value is a decoded JSON document:
  \<^verbatim>\<open>None\<close>, a bool, an int, a float, a str, a list or a dict with string keys. A dict
  is kept as an association list that is read with \<open>map_of\<close>. Python floats are
  modelled by exact reals: rounding, infinities and NaN are outside the model.
\<close>

datatype json =
    JNull
  | JBool bool
  | JInt int
  | JFloat real
  | JStr string
  | JArr "json list"
  | JObj "(string \<times> json) list"

text \<open>The exceptions that the request handlers can meet.\<close>

datatype exn =
    AttributeError
  | TypeError
  | MultipleResultsFound
  | IntegrityError
  | OSError

text \<open>\<^verbatim>\<open>except SQLAlchemyError\<close> catches the two exceptions raised by the ORM.\<close>

fun is_SQLAlchemyError :: "exn \<Rightarrow> bool" where
  "is_SQLAlchemyError MultipleResultsFound = True"
| "is_SQLAlchemyError IntegrityError = True"
| "is_SQLAlchemyError _ = False"

text \<open>Python truth value testing, as used by \<^verbatim>\<open>not x\<close>, \<^verbatim>\<open>x or y\<close> and \<^verbatim>\<open>if x\<close>.\<close>

fun truthy :: "json \<Rightarrow> bool" where
  "truthy JNull = False"
| "truthy (JBool b) = b"
| "truthy (JInt i) = (i \<noteq> 0)"
| "truthy (JFloat r) = (r \<noteq> 0)"
| "truthy (JStr s) = (s \<noteq> [])"
| "truthy (JArr xs) = (xs \<noteq> [])"
| "truthy (JObj kvs) = (kvs \<noteq> [])"

definition py_or :: "json \<Rightarrow> json \<Rightarrow> json" where
  "py_or a b = (if truthy a then a else b)"

text \<open>\<^verbatim>\<open>d.get(k)\<close> on a dict: the value, or \<^verbatim>\<open>None\<close> when the key is missing.\<close>

definition py_get :: "(string \<times> json) list \<Rightarrow> string \<Rightarrow> json" where
  "py_get kvs k = (case map_of kvs k of None \<Rightarrow> JNull | Some v \<Rightarrow> v)"

text \<open>The numeric value of a bool, an int or a float; nothing else is a number.\<close>

fun py_num :: "json \<Rightarrow> real option" where
  "py_num (JBool b) = Some (if b then 1 else 0)"
| "py_num (JInt i) = Some (of_int i)"
| "py_num (JFloat r) = Some r"
| "py_num _ = None"

text \<open>Python \<^verbatim>\<open>==\<close> on decoded JSON: numbers compare by value across bool, int and float.\<close>

fun py_eq :: "json \<Rightarrow> json \<Rightarrow> bool"
  and py_eq_list :: "json list \<Rightarrow> json list \<Rightarrow> bool"
  and py_eq_items :: "(string \<times> json) list \<Rightarrow> (string \<times> json) list \<Rightarrow> bool" where
  "py_eq JNull y = (y = JNull)"
| "py_eq (JBool b) y = (py_num y = Some (if b then 1 else 0))"
| "py_eq (JInt i) y = (py_num y = Some (of_int i))"
| "py_eq (JFloat r) y = (py_num y = Some r)"
| "py_eq (JStr s) y = (y = JStr s)"
| "py_eq (JArr xs) y = (case y of JArr ys \<Rightarrow> py_eq_list xs ys | _ \<Rightarrow> False)"
| "py_eq (JObj a) y =
     (case y of JObj b \<Rightarrow> length a = length b \<and> py_eq_items a b | _ \<Rightarrow> False)"
| "py_eq_list [] ys = (ys = [])"
| "py_eq_list (x # xs) ys =
     (case ys of [] \<Rightarrow> False | y # ys' \<Rightarrow> py_eq x y \<and> py_eq_list xs ys')"
| "py_eq_items [] b = True"
| "py_eq_items (kv # kvs) b =
     ((case map_of b (fst kv) of None \<Rightarrow> False | Some w \<Rightarrow> py_eq (snd kv) w)
      \<and> py_eq_items kvs b)"

definition contains_str :: "string \<Rightarrow> string \<Rightarrow> bool" where
  "contains_str t s = list_ex (prefix t) (suffixes s)"

text \<open>
  \<^verbatim>\<open>x in container\<close>. A dict hashes the key first, so a list or a dict as key raises
  \<^verbatim>\<open>TypeError\<close>; the keys of a decoded JSON object are strings, so no number is a key.
  A list compares its elements with \<^verbatim>\<open>==\<close>; a str accepts only a str on the left;
  \<^verbatim>\<open>None\<close> and numbers are not containers.
\<close>

fun py_in :: "json \<Rightarrow> json \<Rightarrow> exn + bool" where
  "py_in x (JObj kvs) =
     (case x of
        JArr _ \<Rightarrow> Inl TypeError
      | JObj _ \<Rightarrow> Inl TypeError
      | JStr k \<Rightarrow> Inr (k \<in> set (map fst kvs))
      | _ \<Rightarrow> Inr False)"
| "py_in x (JArr ys) = Inr (list_ex (py_eq x) ys)"
| "py_in x (JStr s) = (case x of JStr t \<Rightarrow> Inr (contains_str t s) | _ \<Rightarrow> Inl TypeError)"
| "py_in x _ = Inl TypeError"

text \<open>Sequence indexing: a negative index counts from the end; \<open>None\<close> is \<^verbatim>\<open>IndexError\<close>.\<close>

definition py_index :: "'a list \<Rightarrow> int \<Rightarrow> 'a option" where
  "py_index xs i =
     (if 0 \<le> i \<and> i < int (length xs) then Some (xs ! nat i)
      else if i < 0 \<and> 0 \<le> int (length xs) + i then Some (xs ! nat (int (length xs) + i))
      else None)"

text \<open>
  \<^verbatim>\<open>container[key]\<close>; \<open>None\<close> stands for any exception it raises (\<^verbatim>\<open>KeyError\<close>,
  \<^verbatim>\<open>IndexError\<close>, \<^verbatim>\<open>TypeError\<close>): the only use is inside a \<^verbatim>\<open>try\<close> that catches all.
\<close>

fun py_getitem :: "json \<Rightarrow> json \<Rightarrow> json option" where
  "py_getitem (JObj kvs) k = (case k of JStr s \<Rightarrow> map_of kvs s | _ \<Rightarrow> None)"
| "py_getitem (JArr xs) k =
     (case k of
        JInt i \<Rightarrow> py_index xs i
      | JBool b \<Rightarrow> py_index xs (if b then 1 else 0)
      | _ \<Rightarrow> None)"
| "py_getitem (JStr s) k =
     (case k of
        JInt i \<Rightarrow> map_option (\<lambda>ch. JStr [ch]) (py_index s i)
      | JBool b \<Rightarrow> map_option (\<lambda>ch. JStr [ch]) (py_index s (if b then 1 else 0))
      | _ \<Rightarrow> None)"
| "py_getitem _ k = None"

text \<open>
  \<^verbatim>\<open>float(v)\<close>; \<open>None\<close> stands for \<^verbatim>\<open>TypeError\<close> or \<^verbatim>\<open>ValueError\<close>. The grammar that
  \<^verbatim>\<open>float\<close> accepts for a str belongs to the Python runtime and is a parameter.
\<close>

fun py_float :: "(string \<Rightarrow> real option) \<Rightarrow> json \<Rightarrow> real option" where
  "py_float pf (JStr s) = pf s"
| "py_float pf v = py_num v"

text \<open>
  \<^verbatim>\<open>for c in countries_data\<close>: a list yields its elements, a dict its keys, a str its
  characters; anything else is not iterable.
\<close>

fun py_iter :: "json \<Rightarrow> exn + json list" where
  "py_iter (JArr xs) = Inr xs"
| "py_iter (JObj kvs) = Inr (map (\<lambda>kv. JStr (fst kv)) kvs)"
| "py_iter (JStr s) = Inr (map (\<lambda>ch. JStr [ch]) s)"
| "py_iter _ = Inl TypeError"

text \<open>
  \<^verbatim>\<open>str.lower()\<close> and SQL \<^verbatim>\<open>lower()\<close>, which agree on ASCII text. Names are taken to be
  ASCII: \<open>char\<close> is a byte, and the model leaves every other byte alone.
\<close>

definition lower_char :: "char \<Rightarrow> char" where
  "lower_char c =
     (case map_of (zip ''ABCDEFGHIJKLMNOPQRSTUVWXYZ'' ''abcdefghijklmnopqrstuvwxyz'') c of
        None \<Rightarrow> c
      | Some l \<Rightarrow> l)"

definition lower :: "string \<Rightarrow> string" where
  "lower s = map lower_char s"

text \<open>
  \<^verbatim>\<open>random.randint(a, b)\<close> as a function of the entropy \<open>g\<close> it consumes: every result
  lies in the inclusive range, and every value of the range is the result for some \<open>g\<close>.
\<close>

definition randint :: "int \<Rightarrow> int \<Rightarrow> nat \<Rightarrow> int" where
  "randint a b g = a + int (g mod nat (b - a + 1))"

section \<open>The environment of one request\<close>

datatype backend = PostgreSQL | SQLite

record env =
  parse_float :: "string \<Rightarrow> real option"
  entropy :: "nat \<Rightarrow> nat"
  now :: string
  image_io_ok :: bool

text \<open>
  \<open>parse_float\<close> is \<^verbatim>\<open>float\<close> on a str, \<open>entropy\<close> feeds the successive calls of
  \<^verbatim>\<open>random.randint\<close>, \<open>now\<close> is \<^verbatim>\<open>datetime.now(timezone.utc)\<close> (a datetime is kept as
  its ISO rendering), and \<open>image_io_ok\<close> tells whether \<^verbatim>\<open>os.makedirs\<close> and \<^verbatim>\<open>img.save\<close>
  succeed on the file system.
\<close>

section \<open>Tables\<close>

text \<open>
  A row of \<^verbatim>\<open>countries\<close>. The optional text columns hold what the handler passes to the
  ORM; the coercions and length limits of the database backend are outside the model.
  \<open>row_id\<close> is \<^verbatim>\<open>None\<close> on an object that has not been flushed.
\<close>

record country =
  row_id :: "nat option"
  name :: string
  capital :: json
  region :: json
  population :: json
  currency_code :: json
  exchange_rate :: "real option"
  estimated_gdp :: "real option"
  flag_url :: json
  last_refreshed_at :: "string option"

record database =
  countries :: "country list"
  meta :: "(string \<times> string) list"
  next_id :: nat

text \<open>
  A session made by \<^verbatim>\<open>sessionmaker(bind=engine, autoflush=False, autocommit=False)\<close>:
  the persistent objects (loaded rows, with the attribute changes made so far), the
  pending objects given to \<^verbatim>\<open>session.add\<close>, which reach the database only when
  \<^verbatim>\<open>commit\<close> flushes them, and the number of random draws made by the request.
  With \<^verbatim>\<open>autoflush=False\<close> a query does not flush, so it reads the rows only.
\<close>

record txn =
  rows :: "country list"
  pending :: "country list"
  meta_rows :: "(string \<times> string) list"
  meta_pending :: "(string \<times> string) list"
  draws :: nat

definition begin_txn :: "database \<Rightarrow> txn" where
  "begin_txn db =
     \<lparr>rows = countries db, pending = [], meta_rows = meta db, meta_pending = [], draws = 0\<rparr>"

text \<open>\<^verbatim>\<open>Query.one_or_none()\<close>.\<close>

fun one_or_none :: "'a list \<Rightarrow> exn + 'a option" where
  "one_or_none [] = Inr None"
| "one_or_none [x] = Inr (Some x)"
| "one_or_none _ = Inl MultipleResultsFound"

text \<open>\<^verbatim>\<open>func.lower(Country.name) == name.lower()\<close>.\<close>

definition same_name :: "string \<Rightarrow> country \<Rightarrow> bool" where
  "same_name n r = (lower (name r) = lower n)"

section \<open>POST /countries/refresh\<close>

text \<open>Lines 209 to 214: the code of the first currency, or \<^verbatim>\<open>None\<close>.\<close>

definition first_currency_code :: "json \<Rightarrow> json" where
  "first_currency_code currencies =
     (case currencies of
        JArr (first # _) \<Rightarrow> (case first of JObj kvs \<Rightarrow> py_get kvs ''code'' | _ \<Rightarrow> JNull)
      | _ \<Rightarrow> JNull)"

text \<open>
  \<^verbatim>\<open>(population * multiplier) / exchange_rate_value\<close>; \<open>None\<close> when it raises: a population
  that is a str or a list is repeated and cannot be divided, and a zero rate divides by
  zero.
\<close>

definition estimate :: "json \<Rightarrow> int \<Rightarrow> real \<Rightarrow> real option" where
  "estimate population' multiplier exchange_rate_value =
     (case py_num population' of
        None \<Rightarrow> None
      | Some p \<Rightarrow>
          if exchange_rate_value = 0 then None
          else Some (p * of_int multiplier / exchange_rate_value))"

text \<open>
  Lines 216 to 238: the exchange rate and the estimated GDP of a record, and the number
  of draws made afterwards. The membership test stands outside the \<^verbatim>\<open>try\<close>, so its
  exception leaves the loop; everything inside the \<^verbatim>\<open>try\<close> falls back to two nulls.
\<close>

definition derive ::
  "env \<Rightarrow> json \<Rightarrow> json \<Rightarrow> json \<Rightarrow> nat \<Rightarrow> exn + (real option \<times> real option \<times> nat)" where
  "derive e rates currency_code' population' k =
     (if \<not> truthy currency_code' then Inr (None, Some 0, k)
      else
        case py_in currency_code' rates of
          Inl x \<Rightarrow> Inl x
        | Inr found \<Rightarrow>
            if found then
              (case Option.bind (py_getitem rates currency_code') (py_float (parse_float e)) of
                 None \<Rightarrow> Inr (None, None, k)
               | Some exchange_rate_value \<Rightarrow>
                   (case estimate population' (randint 1000 2000 (entropy e k))
                           exchange_rate_value of
                      None \<Rightarrow> Inr (None, None, Suc k)
                    | Some gdp \<Rightarrow> Inr (Some exchange_rate_value, Some gdp, Suc k)))
            else Inr (None, None, k))"

text \<open>
  Lines 197 to 241, up to \<^verbatim>\<open>name.lower()\<close>: the values that the loop body is about to
  store for the record \<open>c\<close>. \<open>Inr None\<close> is the \<^verbatim>\<open>continue\<close> of a skipped record.
  \<^verbatim>\<open>c.get\<close> needs a dict and \<^verbatim>\<open>name.lower()\<close> needs a str.
\<close>

definition prepare :: "env \<Rightarrow> json \<Rightarrow> json \<Rightarrow> nat \<Rightarrow> exn + (country \<times> nat) option" where
  "prepare e rates c k =
     (case c of
        JObj kvs \<Rightarrow>
          (let name' = py_get kvs ''name'';
               population' = py_get kvs ''population'';
               capital' = py_get kvs ''capital'';
               region' = py_get kvs ''region'';
               flag_url' = py_get kvs ''flag'';
               currencies = py_or (py_get kvs ''currencies'') (JArr [])
           in
             if \<not> truthy name' \<or> population' = JNull then Inr None
             else
               (let currency_code' = first_currency_code currencies in
                case derive e rates currency_code' population' k of
                  Inl x \<Rightarrow> Inl x
                | Inr (exchange_rate', estimated_gdp', k') \<Rightarrow>
                    (case name' of
                       JStr n \<Rightarrow>
                         Inr (Some
                           (\<lparr>row_id = None, name = n, capital = capital', region = region',
                             population = population', currency_code = currency_code',
                             exchange_rate = exchange_rate', estimated_gdp = estimated_gdp',
                             flag_url = flag_url', last_refreshed_at = Some (now e)\<rparr>, k'))
                     | _ \<Rightarrow> Inl AttributeError)))
      | _ \<Rightarrow> Inl AttributeError)"

text \<open>The assignments to \<^verbatim>\<open>existing\<close>: every column but the key and the name.\<close>

definition overwrite :: "country \<Rightarrow> country \<Rightarrow> country" where
  "overwrite existing v =
     existing\<lparr>capital := capital v, region := region v, population := population v,
              currency_code := currency_code v, exchange_rate := exchange_rate v,
              estimated_gdp := estimated_gdp v, flag_url := flag_url v,
              last_refreshed_at := last_refreshed_at v\<rparr>"

text \<open>
  Lines 241 to 264: the query sees the rows of the table, not the pending objects; a
  match is changed in place, and otherwise a new object is added to the session.
\<close>

definition upsert :: "country \<Rightarrow> txn \<Rightarrow> exn + txn" where
  "upsert v s =
     (case one_or_none (filter (same_name (name v)) (rows s)) of
        Inl x \<Rightarrow> Inl x
      | Inr (Some existing) \<Rightarrow>
          Inr (s\<lparr>rows := map (\<lambda>r. if r = existing then overwrite r v else r) (rows s)\<rparr>)
      | Inr None \<Rightarrow> Inr (s\<lparr>pending := pending s @ [v]\<rparr>))"

definition refresh_record :: "env \<Rightarrow> json \<Rightarrow> json \<Rightarrow> txn \<Rightarrow> exn + txn" where
  "refresh_record e rates c s =
     (case prepare e rates c (draws s) of
        Inl x \<Rightarrow> Inl x
      | Inr None \<Rightarrow> Inr s
      | Inr (Some (v, k)) \<Rightarrow> upsert v (s\<lparr>draws := k\<rparr>))"

fun refresh_loop :: "env \<Rightarrow> json \<Rightarrow> json list \<Rightarrow> txn \<Rightarrow> exn + txn" where
  "refresh_loop e rates [] s = Inr s"
| "refresh_loop e rates (c # cs) s =
     (case refresh_record e rates c s of
        Inl x \<Rightarrow> Inl x
      | Inr s' \<Rightarrow> refresh_loop e rates cs s')"

definition set_meta :: "string \<Rightarrow> string \<Rightarrow> txn \<Rightarrow> exn + txn" where
  "set_meta key val s =
     (case one_or_none (filter (\<lambda>m. fst m = key) (meta_rows s)) of
        Inl x \<Rightarrow> Inl x
      | Inr (Some m) \<Rightarrow>
          Inr (s\<lparr>meta_rows := map (\<lambda>r. if r = m then (fst r, val) else r) (meta_rows s)\<rparr>)
      | Inr None \<Rightarrow> Inr (s\<lparr>meta_pending := meta_pending s @ [(key, val)]\<rparr>))"

text \<open>The flush gives the new rows their keys, in the order of \<^verbatim>\<open>session.add\<close>.\<close>

fun assign_ids :: "nat \<Rightarrow> country list \<Rightarrow> country list" where
  "assign_ids n [] = []"
| "assign_ids n (p # ps) = p\<lparr>row_id := Some n\<rparr> # assign_ids (Suc n) ps"

text \<open>
  \<^verbatim>\<open>session.commit()\<close>: the flush inserts the pending objects and writes the changed
  rows. The columns \<^verbatim>\<open>countries.name\<close> and \<^verbatim>\<open>meta.key\<close> are declared \<^verbatim>\<open>unique=True\<close>,
  which compares the stored text exactly; an insert that repeats a value raises
  \<^verbatim>\<open>IntegrityError\<close>.
\<close>

definition commit :: "database \<Rightarrow> txn \<Rightarrow> exn + database" where
  "commit db s =
     (if distinct (map name (pending s))
         \<and> list_all (\<lambda>p. name p \<notin> set (map name (rows s))) (pending s)
         \<and> distinct (map fst (meta_pending s))
         \<and> list_all (\<lambda>m. fst m \<notin> set (map fst (meta_rows s))) (meta_pending s)
      then Inr \<lparr>countries = rows s @ assign_ids (next_id db) (pending s),
                meta = meta_rows s @ meta_pending s,
                next_id = next_id db + length (pending s)\<rparr>
      else Inl IntegrityError)"

text \<open>Lines 190 to 268: the body of the \<^verbatim>\<open>try\<close>, from the loop to the commit.\<close>

definition transaction :: "env \<Rightarrow> json \<Rightarrow> json \<Rightarrow> database \<Rightarrow> exn + database" where
  "transaction e countries_data rates db =
     (case py_iter countries_data of
        Inl x \<Rightarrow> Inl x
      | Inr cs \<Rightarrow>
          (case refresh_loop e rates cs (begin_txn db) of
             Inl x \<Rightarrow> Inl x
           | Inr s \<Rightarrow>
               (case set_meta ''last_refreshed_at'' (now e) s of
                  Inl x \<Rightarrow> Inl x
                | Inr s' \<Rightarrow> commit db s')))"

section \<open>The summary image\<close>

record summary =
  total_countries :: nat
  refreshed :: string
  top5 :: "(string \<times> real) list"

definition gdp_value :: "country \<Rightarrow> real" where
  "gdp_value r = (case estimated_gdp r of None \<Rightarrow> 0 | Some v \<Rightarrow> v)"

definition has_gdp :: "country \<Rightarrow> bool" where
  "has_gdp r = (estimated_gdp r \<noteq> None)"

text \<open>
  \<^verbatim>\<open>ORDER BY estimated_gdp\<close>. Where SQL leaves the order open the model keeps the table
  order (equal values). NULL sorts as the largest value on PostgreSQL and as the smallest
  on SQLite.
\<close>

definition order_by_gdp_asc :: "backend \<Rightarrow> country list \<Rightarrow> country list" where
  "order_by_gdp_asc be q =
     (case be of
        PostgreSQL \<Rightarrow> sort_key gdp_value (filter has_gdp q) @ filter (\<lambda>r. \<not> has_gdp r) q
      | SQLite \<Rightarrow> filter (\<lambda>r. \<not> has_gdp r) q @ sort_key gdp_value (filter has_gdp q))"

definition order_by_gdp_desc :: "backend \<Rightarrow> country list \<Rightarrow> country list" where
  "order_by_gdp_desc be q =
     (case be of
        PostgreSQL \<Rightarrow>
          filter (\<lambda>r. \<not> has_gdp r) q @ sort_key (\<lambda>r. - gdp_value r) (filter has_gdp q)
      | SQLite \<Rightarrow>
          sort_key (\<lambda>r. - gdp_value r) (filter has_gdp q) @ filter (\<lambda>r. \<not> has_gdp r) q)"

definition generate_summary_image :: "env \<Rightarrow> backend \<Rightarrow> database \<Rightarrow> string \<Rightarrow> exn + summary" where
  "generate_summary_image e be db last_refreshed_iso =
     (if image_io_ok e
      then Inr \<lparr>total_countries = length (countries db), refreshed = last_refreshed_iso,
                top5 = map (\<lambda>r. (name r, gdp_value r))
                         (take 5 (order_by_gdp_desc be (filter has_gdp (countries db))))\<rparr>
      else Inl OSError)"

section \<open>The handlers\<close>

record world =
  store :: database
  image :: "summary option"

datatype failure =
    Unavailable503
  | Storage500
  | NotFound404
  | Unhandled exn

text \<open>
  \<^verbatim>\<open>refresh_countries\<close>. A fetch that raised \<^verbatim>\<open>RuntimeError\<close> is \<open>None\<close>. An exception
  that is no \<^verbatim>\<open>SQLAlchemyError\<close> passes the \<^verbatim>\<open>except\<close> clause and leaves the handler; the
  \<^verbatim>\<open>finally\<close> closes the session, which discards the open transaction. The image is
  rendered in a \<^verbatim>\<open>try\<close> that has a \<^verbatim>\<open>finally\<close> and no \<^verbatim>\<open>except\<close>. The result is the
  timestamp of the success response, or the failure.
\<close>

definition refresh_countries ::
  "env \<Rightarrow> backend \<Rightarrow> json option \<Rightarrow> json option \<Rightarrow> world \<Rightarrow> (failure + string) \<times> world" where
  "refresh_countries e be countries_fetch exchange_fetch w =
     (case countries_fetch of
        None \<Rightarrow> (Inl Unavailable503, w)
      | Some countries_data \<Rightarrow>
          (case exchange_fetch of
             None \<Rightarrow> (Inl Unavailable503, w)
           | Some exchange_data \<Rightarrow>
               (case exchange_data of
                  JObj ed \<Rightarrow>
                    (case map_of ed ''rates'' of
                       None \<Rightarrow> (Inl Unavailable503, w)
                     | Some rates \<Rightarrow>
                         (case transaction e countries_data rates (store w) of
                            Inl x \<Rightarrow>
                              (if is_SQLAlchemyError x then (Inl Storage500, w)
                               else (Inl (Unhandled x), w))
                          | Inr db' \<Rightarrow>
                              (case generate_summary_image e be db' (now e) of
                                 Inl x \<Rightarrow> (Inl (Unhandled x), w\<lparr>store := db'\<rparr>)
                               | Inr img \<Rightarrow>
                                   (Inr (now e), \<lparr>store = db', image = Some img\<rparr>))))
                | _ \<Rightarrow> (Inl Unavailable503, w))))"

text \<open>
  \<^verbatim>\<open>list_countries\<close>: \<^verbatim>\<open>if region:\<close> and \<^verbatim>\<open>if currency:\<close> are truth tests, so an empty
  string filters as little as an absent parameter. A query without \<^verbatim>\<open>order_by\<close> is
  taken to return the rows in table order.
\<close>

definition list_countries ::
  "backend \<Rightarrow> database \<Rightarrow> string option \<Rightarrow> string option \<Rightarrow> string option \<Rightarrow> country list" where
  "list_countries be db region' currency sort' =
     (let q = countries db;
          q1 = (case region' of
                  None \<Rightarrow> q
                | Some g \<Rightarrow> if g \<noteq> [] then filter (\<lambda>r. region r = JStr g) q else q);
          q2 = (case currency of
                  None \<Rightarrow> q1
                | Some cur \<Rightarrow> if cur \<noteq> [] then filter (\<lambda>r. currency_code r = JStr cur) q1 else q1)
      in case sort' of
           None \<Rightarrow> q2
         | Some srt \<Rightarrow>
             if srt = ''gdp_desc'' then order_by_gdp_desc be q2
             else if srt = ''gdp_asc'' then order_by_gdp_asc be q2
             else q2)"



text \<open>
  Two sessions agree on identities when their rows and their pending objects carry the
  same names in the same order, and their metadata the same keys.
\<close>

definition names_rel :: "txn \<Rightarrow> txn \<Rightarrow> bool" where
  "names_rel s t =
     (map name (rows s) = map name (rows t) \<and> map name (pending s) = map name (pending t)
      \<and> map fst (meta_rows s) = map fst (meta_rows t)
      \<and> map fst (meta_pending s) = map fst (meta_pending t))"

text \<open>
  The selection that the list operation is compared with: a parameter that is absent or
  empty selects every row, and any other value selects the rows whose column holds
  exactly that string.
\<close>

definition filter_given :: "string option \<Rightarrow> json \<Rightarrow> bool" where
  "filter_given param col =
     (case param of None \<Rightarrow> True | Some g \<Rightarrow> if g = [] then True else col = JStr g)"

section \<open>Sample inputs\<close>

text \<open>
  A request environment whose draws all return the entropy 0 (multiplier 1000), one
  whose file system refuses the image, an empty database, and the rates document
  \<^verbatim>\<open>{"rates": {"ABC": 2.0}}\<close>.
\<close>

definition env0 :: env where
  "env0 = \<lparr>parse_float = (\<lambda>s. None), entropy = (\<lambda>k. 0), now = ''T1'', image_io_ok = True\<rparr>"

definition env_disk_full :: env where
  "env_disk_full = env0\<lparr>image_io_ok := False\<rparr>"

definition env_later :: env where
  "env_later = env0\<lparr>entropy := (\<lambda>k. 1000), now := ''T2''\<rparr>"

definition world0 :: world where
  "world0 = \<lparr>store = \<lparr>countries = [], meta = [], next_id = 1\<rparr>, image = None\<rparr>"

definition rates_abc :: json where
  "rates_abc = JObj [(''ABC'', JFloat 2)]"

definition exchange_abc :: json where
  "exchange_abc = JObj [(''rates'', rates_abc)]"

definition testland :: json where
  "testland =
     JObj [(''name'', JStr ''Testland''), (''population'', JInt 1000),
           (''currencies'', JArr [JObj [(''code'', JStr ''ABC'')]])]"

definition nowhere :: json where
  "nowhere = JObj [(''name'', JStr ''Nowhere'')]"

definition nocoin :: json where
  "nocoin =
     JObj [(''name'', JStr ''Nocoin''), (''population'', JInt 7),
           (''currencies'', JArr [JObj [(''code'', JStr [])]])]"

definition debtland :: json where
  "debtland =
     JObj [(''name'', JStr ''Debtland''), (''population'', JInt (- 1)),
           (''currencies'', JArr [JObj [(''code'', JStr ''ABC'')]])]"

definition case_twins :: json where
  "case_twins =
     JArr [JObj [(''name'', JStr ''Abc''), (''population'', JInt 1)],
           JObj [(''name'', JStr ''abc''), (''population'', JInt 1)]]"

definition oddland :: json where
  "oddland =
     JObj [(''name'', JStr ''Oddland''), (''population'', JInt 3),
           (''currencies'', JArr [JObj [(''code'', JArr [JStr ''X''])]])]"

definition nigeria :: country where
  "nigeria =
     \<lparr>row_id = Some 1, name = ''Nigeria'', capital = JStr ''Abuja'', region = JStr ''Africa'',
      population = JInt 200, currency_code = JStr ''NGN'', exchange_rate = Some 1600,
      estimated_gdp = Some 150, flag_url = JNull, last_refreshed_at = Some ''T1''\<rparr>"

definition france :: country where
  "france =
     \<lparr>row_id = Some 2, name = ''France'', capital = JStr ''Paris'', region = JStr ''Europe'',
      population = JInt 60, currency_code = JStr ''EUR'', exchange_rate = Some 1,
      estimated_gdp = Some 3000, flag_url = JNull, last_refreshed_at = Some ''T1''\<rparr>"

definition ghana :: country where
  "ghana =
     \<lparr>row_id = Some 3, name = ''Ghana'', capital = JStr ''Accra'', region = JStr ''Africa'',
      population = JInt 30, currency_code = JStr ''GHS'', exchange_rate = Some 12,
      estimated_gdp = Some 90, flag_url = JNull, last_refreshed_at = Some ''T1''\<rparr>"

definition db3 :: database where
  "db3 = \<lparr>countries = [nigeria, france, ghana], meta = [(''last_refreshed_at'', ''T1'')],
          next_id = 4\<rparr>"

lemmas sample_rows =
  db3_def nigeria_def france_def ghana_def same_name_def lower_def lower_char_def

lemmas eval_defs =
  refresh_countries_def transaction_def refresh_record_def prepare_def py_get_def py_or_def
  first_currency_code_def derive_def estimate_def randint_def upsert_def begin_txn_def
  set_meta_def commit_def generate_summary_image_def order_by_gdp_desc_def has_gdp_def
  gdp_value_def same_name_def lower_def lower_char_def
  env0_def env_disk_full_def env_later_def world0_def rates_abc_def exchange_abc_def
  testland_def nowhere_def nocoin_def debtland_def case_twins_def oddland_def

section \<open>The random multiplier\<close>


lemma randint_onto:
  assumes "1000 \<le> m" and "m \<le> 2000"
  shows "\<exists>g. randint 1000 2000 g = m"
proof
  from assms have "nat (m - 1000) mod 1001 = nat (m - 1000)" by simp
  with assms show "randint 1000 2000 (nat (m - 1000)) = m" by (simp add: randint_def)
qed

section \<open>Skipped records\<close>

lemma prepare_skip:
  assumes "\<not> truthy (py_get kvs ''name'') \<or> py_get kvs ''population'' = JNull"
  shows "prepare e rates (JObj kvs) k = Inr None"
  using assms by (auto simp: prepare_def Let_def)

lemma refresh_record_skip:
  assumes "\<not> truthy (py_get kvs ''name'') \<or> py_get kvs ''population'' = JNull"
  shows "refresh_record e rates (JObj kvs) s = Inr s"
  by (simp add: refresh_record_def prepare_skip [OF assms])

lemma refresh_loop_append:
  "refresh_loop e rates (xs @ ys) s =
     (case refresh_loop e rates xs s of Inl x \<Rightarrow> Inl x | Inr s' \<Rightarrow> refresh_loop e rates ys s')"
  by (induction xs arbitrary: s) (auto split: sum.splits)

lemma refresh_loop_skip:
  assumes "\<not> truthy (py_get kvs ''name'') \<or> py_get kvs ''population'' = JNull"
  shows "refresh_loop e rates (xs @ JObj kvs # ys) s = refresh_loop e rates (xs @ ys) s"
  by (simp add: refresh_loop_append refresh_record_skip [OF assms] split: sum.splits)

text \<open>
  Claim C4. A record whose name is missing (or empty) or whose population is missing is
  skipped: the loop body returns the session as it was, without an exception, and the
  whole refresh gives the same response and the same state as the refresh of the feed
  without this record. So the record leaves no row, changes no row and reports no
  error.
\<close>

theorem C4_skipped_record_leaves_no_trace:
  assumes "\<not> truthy (py_get kvs ''name'') \<or> py_get kvs ''population'' = JNull"
  shows "refresh_record e rates (JObj kvs) s = Inr s
         \<and> refresh_countries e be (Some (JArr (xs @ JObj kvs # ys))) exchange_fetch w =
           refresh_countries e be (Some (JArr (xs @ ys))) exchange_fetch w"
proof -
  have "transaction e (JArr (xs @ JObj kvs # ys)) r db = transaction e (JArr (xs @ ys)) r db"
    for r db
    by (simp add: transaction_def refresh_loop_skip [OF assms])
  then have "refresh_countries e be (Some (JArr (xs @ JObj kvs # ys))) exchange_fetch w =
         refresh_countries e be (Some (JArr (xs @ ys))) exchange_fetch w"
    by (simp add: refresh_countries_def split: option.split json.split)
  with refresh_record_skip [OF assms] show ?thesis by simp
qed

theorem C4_witness:
  "py_get [(''name'', JStr ''Nowhere'')] ''population'' = JNull
   \<and> refresh_countries env0 SQLite (Some (JArr ([testland] @ nowhere # [])))
         (Some exchange_abc) world0
       = refresh_countries env0 SQLite (Some (JArr ([testland] @ []))) (Some exchange_abc) world0
   \<and> map name (countries (store (snd (refresh_countries env0 SQLite
         (Some (JArr ([testland] @ nowhere # []))) (Some exchange_abc) world0))))
       = [''Testland'']"
proof -
  have h: "\<not> truthy (py_get [(''name'', JStr ''Nowhere'')] ''name'')
           \<or> py_get [(''name'', JStr ''Nowhere'')] ''population'' = JNull"
    by (simp add: py_get_def)
  have run: "map name (countries (store (snd (refresh_countries env0 SQLite
         (Some (JArr ([testland] @ []))) (Some exchange_abc) world0)))) = [''Testland'']"
    by (simp add: eval_defs)
  show ?thesis
    using C4_skipped_record_leaves_no_trace
            [OF h, of env0 _ _ SQLite "[testland]" "[]" "Some exchange_abc" world0] run
    by (simp add: py_get_def nowhere_def)
qed

section \<open>The derived columns\<close>







text \<open>
  What the upsert does with the prepared values: either exactly one row of the table has
  the name up to case and gets every prepared column, or no row has it and the prepared
  row joins the pending objects unchanged.
\<close>

lemma upsert_stores:
  assumes "upsert v s = Inr s'"
  shows "(\<exists>existing. filter (same_name (name v)) (rows s) = [existing]
            \<and> s' = s\<lparr>rows := map (\<lambda>r. if r = existing then overwrite r v else r) (rows s)\<rparr>)
         \<or> (filter (same_name (name v)) (rows s) = [] \<and> s' = s\<lparr>pending := pending s @ [v]\<rparr>)"
proof (cases "filter (same_name (name v)) (rows s)")
  case Nil
  with assms show ?thesis by (simp add: upsert_def)
next
  case (Cons a as)
  with assms show ?thesis by (cases as) (auto simp: upsert_def)
qed

lemma overwrite_columns:
  "exchange_rate (overwrite r v) = exchange_rate v
   \<and> estimated_gdp (overwrite r v) = estimated_gdp v
   \<and> currency_code (overwrite r v) = currency_code v
   \<and> population (overwrite r v) = population v
   \<and> name (overwrite r v) = name r \<and> row_id (overwrite r v) = row_id r"
  by (simp add: overwrite_def)









section \<open>The refresh as a whole\<close>

text \<open>
  Claim C1 fails on the code. The session is made with \<^verbatim>\<open>autoflush=False\<close>, so the
  lookup of the upsert reads the table and not the objects added earlier in the same
  batch. For the feed \<open>case_twins\<close>, whose two records are named \<^verbatim>\<open>Abc\<close> and
  \<^verbatim>\<open>abc\<close>, on an empty table: both lookups find nothing, both records are inserted,
  the exact uniqueness of the name column accepts them, and the refresh answers with
  success and leaves two rows whose names are equal up to case.
\<close>

theorem C1_case_twins_are_both_inserted:
  "fst (refresh_countries env0 SQLite (Some case_twins) (Some exchange_abc) world0) = Inr ''T1''
   \<and> map name (countries (store (snd
         (refresh_countries env0 SQLite (Some case_twins) (Some exchange_abc) world0))))
       = [''Abc'', ''abc'']
   \<and> lower ''Abc'' = lower ''abc''"
  by (simp add: eval_defs)

text \<open>
  The transaction is all or nothing: when anything between the loop and the commit
  raises, the state after the request is the state before it. A \<^verbatim>\<open>SQLAlchemyError\<close> is
  answered with the JSON body of status 500; any other exception leaves the handler.
\<close>

lemma failed_transaction_keeps_state:
  assumes "map_of ed ''rates'' = Some rates"
    and "transaction e countries_data rates (store w) = Inl x"
  shows "refresh_countries e be (Some countries_data) (Some (JObj ed)) w =
           (Inl (if is_SQLAlchemyError x then Storage500 else Unhandled x), w)"
  using assms by (simp add: refresh_countries_def)

lemma repeated_name_rolls_back:
  "refresh_countries env0 SQLite (Some (JArr [testland, testland])) (Some exchange_abc) world0
     = (Inl Storage500, world0)"
  by (simp add: eval_defs)

text \<open>
  Claim C5 fails on the code in its last part. The membership test
  \<^verbatim>\<open>currency_code in rates\<close> stands outside the \<^verbatim>\<open>try\<close>; for \<open>oddland\<close>, whose first
  currency entry has a list as code, it raises \<^verbatim>\<open>TypeError\<close>, which is no
  \<^verbatim>\<open>SQLAlchemyError\<close>: the exception leaves the handler and nothing of the batch is
  committed, although the feed without this record is stored.
\<close>

theorem C5_malformed_currency_entry_aborts_batch:
  "refresh_countries env0 SQLite (Some (JArr [testland, oddland])) (Some exchange_abc) world0
     = (Inl (Unhandled TypeError), world0)
   \<and> map name (countries (store (snd
         (refresh_countries env0 SQLite (Some (JArr [testland])) (Some exchange_abc) world0))))
       = [''Testland'']"
  by (simp add: eval_defs)

text \<open>
  Claim C6, as the code has it. The image is rendered after the commit inside a
  \<^verbatim>\<open>try\<close> with a \<^verbatim>\<open>finally\<close> and no \<^verbatim>\<open>except\<close>. When the commit succeeds and the
  rendering raises, the exception leaves the handler: the caller gets no success
  response, and the committed data stays in the database. When the rendering succeeds
  the caller gets the success response with the refresh timestamp.
\<close>

theorem C6_rendering_failure_reaches_caller:
  assumes "map_of ed ''rates'' = Some rates"
    and "transaction e countries_data rates (store w) = Inr db'"
  shows "(\<not> image_io_ok e \<longrightarrow>
            refresh_countries e be (Some countries_data) (Some (JObj ed)) w
              = (Inl (Unhandled OSError), w\<lparr>store := db'\<rparr>))
         \<and> (image_io_ok e \<longrightarrow>
            fst (refresh_countries e be (Some countries_data) (Some (JObj ed)) w) = Inr (now e)
            \<and> store (snd (refresh_countries e be (Some countries_data) (Some (JObj ed)) w)) = db')"
  using assms by (simp add: refresh_countries_def generate_summary_image_def)

theorem C6_witness:
  "refresh_countries env_disk_full SQLite (Some (JArr [testland]))
       (Some (JObj [(''rates'', rates_abc)])) world0
     = (Inl (Unhandled OSError),
        world0\<lparr>store :=
          \<lparr>countries =
             [\<lparr>row_id = Some 1, name = ''Testland'', capital = JNull, region = JNull,
               population = JInt 1000, currency_code = JStr ''ABC'', exchange_rate = Some 2,
               estimated_gdp = Some 500000, flag_url = JNull,
               last_refreshed_at = Some ''T1''\<rparr>],
           meta = [(''last_refreshed_at'', ''T1'')], next_id = 2\<rparr>\<rparr>)"
proof -
  have rates: "map_of [(''rates'', rates_abc)] ''rates'' = Some rates_abc" by simp
  have tx: "transaction env_disk_full (JArr [testland]) rates_abc (store world0) =
      Inr \<lparr>countries =
             [\<lparr>row_id = Some 1, name = ''Testland'', capital = JNull, region = JNull,
               population = JInt 1000, currency_code = JStr ''ABC'', exchange_rate = Some 2,
               estimated_gdp = Some 500000, flag_url = JNull,
               last_refreshed_at = Some ''T1''\<rparr>],
           meta = [(''last_refreshed_at'', ''T1'')], next_id = 2\<rparr>"
    by (simp add: eval_defs)
  have io: "\<not> image_io_ok env_disk_full" by (simp add: env_disk_full_def)
  from C6_rendering_failure_reaches_caller [OF rates tx, of SQLite] io show ?thesis by simp
qed

text \<open>
  The claim as written fails when the file system refuses the image: the commit of the
  one record of the feed succeeds, and the caller gets the exception, not the success
  response.
\<close>

theorem C6_counterexample:
  "fst (refresh_countries env_disk_full SQLite (Some (JArr [testland])) (Some exchange_abc) world0)
     = Inl (Unhandled OSError)
   \<and> map name (countries (store (snd (refresh_countries env_disk_full SQLite
         (Some (JArr [testland])) (Some exchange_abc) world0)))) = [''Testland'']
   \<and> Inl (Unhandled OSError) \<noteq> (Inr (now env_disk_full) :: failure + string)"
  by (simp add: eval_defs)

section \<open>Reading and deleting by name\<close>




section \<open>Listing\<close>

lemma list_countries_filters:
  "list_countries be db rg cur None =
     filter (\<lambda>r. filter_given rg (region r) \<and> filter_given cur (currency_code r)) (countries db)"
  by (auto simp: list_countries_def filter_given_def Let_def split: option.splits)

lemma list_countries_sorted:
  "list_countries be db rg cur (Some srt) =
     (if srt = ''gdp_desc'' then order_by_gdp_desc be (list_countries be db rg cur None)
      else if srt = ''gdp_asc'' then order_by_gdp_asc be (list_countries be db rg cur None)
      else list_countries be db rg cur None)"
  by (simp add: list_countries_def Let_def)

lemma mset_order_by_gdp_asc: "mset (order_by_gdp_asc be q) = mset q"
  by (cases be) (simp_all add: order_by_gdp_asc_def)

lemma mset_order_by_gdp_desc: "mset (order_by_gdp_desc be q) = mset q"
  by (cases be) (simp_all add: order_by_gdp_desc_def)

lemma has_gdp_order_by_gdp_asc:
  "filter has_gdp (order_by_gdp_asc be q) = sort_key gdp_value (filter has_gdp q)"
  by (cases be) (simp_all add: order_by_gdp_asc_def filter_sort)

lemma has_gdp_order_by_gdp_desc:
  "filter has_gdp (order_by_gdp_desc be q) = sort_key (\<lambda>r. - gdp_value r) (filter has_gdp q)"
  by (cases be) (simp_all add: order_by_gdp_desc_def filter_sort)

lemma sorted_rev_of_negated:
  "sorted (map (\<lambda>r. - f r) xs) \<Longrightarrow> sorted (rev (map (f :: 'a \<Rightarrow> real) xs))"
  by (induction xs) (auto simp: sorted_append)

text \<open>
  Claim C8, as the code has it. The region and currency parameters are truth-tested, so
  an empty string filters as little as an absent parameter. The result holds exactly the
  rows selected by the non-empty parameters (each as often as the table has it); it is
  empty when no row is selected; for \<^verbatim>\<open>gdp_asc\<close> the estimated values that are not null
  ascend, for \<^verbatim>\<open>gdp_desc\<close> they descend; for any other or absent sort value the result
  is the selection in table order.
\<close>

theorem C8_list_countries:
  "mset (list_countries be db rg cur srt)
     = mset (filter (\<lambda>r. filter_given rg (region r) \<and> filter_given cur (currency_code r))
               (countries db))
   \<and> (filter (\<lambda>r. filter_given rg (region r) \<and> filter_given cur (currency_code r))
         (countries db) = [] \<longrightarrow> list_countries be db rg cur srt = [])
   \<and> (srt = Some ''gdp_asc'' \<longrightarrow>
        sorted (map gdp_value (filter has_gdp (list_countries be db rg cur srt))))
   \<and> (srt = Some ''gdp_desc'' \<longrightarrow>
        sorted (rev (map gdp_value (filter has_gdp (list_countries be db rg cur srt)))))
   \<and> (srt \<noteq> Some ''gdp_asc'' \<and> srt \<noteq> Some ''gdp_desc'' \<longrightarrow>
        list_countries be db rg cur srt
          = filter (\<lambda>r. filter_given rg (region r) \<and> filter_given cur (currency_code r))
              (countries db))"
proof -
  let ?sel = "filter (\<lambda>r. filter_given rg (region r) \<and> filter_given cur (currency_code r))
                (countries db)"
  have base: "list_countries be db rg cur None = ?sel"
    by (rule list_countries_filters)
  have perm: "mset (list_countries be db rg cur srt) = mset ?sel"
    by (cases srt)
      (simp_all add: base list_countries_sorted mset_order_by_gdp_asc mset_order_by_gdp_desc)
  have empty: "?sel = [] \<longrightarrow> list_countries be db rg cur srt = []"
  proof
    assume "?sel = []"
    with perm have "mset (list_countries be db rg cur srt) = mset []" by (simp only:)
    then show "list_countries be db rg cur srt = []" by simp
  qed
  have asc: "sorted (map gdp_value (filter has_gdp (list_countries be db rg cur srt)))"
    if "srt = Some ''gdp_asc''"
    using that by (simp add: list_countries_sorted has_gdp_order_by_gdp_asc)
  have "sorted (map (\<lambda>r. - gdp_value r)
          (sort_key (\<lambda>r. - gdp_value r) (filter has_gdp (list_countries be db rg cur None))))"
    by simp
  then have desc: "sorted (rev (map gdp_value (filter has_gdp (list_countries be db rg cur srt))))"
    if "srt = Some ''gdp_desc''"
    using that
    by (simp add: list_countries_sorted has_gdp_order_by_gdp_desc sorted_rev_of_negated)
  have other: "list_countries be db rg cur srt = ?sel"
    if "srt \<noteq> Some ''gdp_asc'' \<and> srt \<noteq> Some ''gdp_desc''"
    using that by (cases srt) (simp_all add: base list_countries_sorted)
  from perm empty asc desc other show ?thesis by blast
qed

theorem C8_witness:
  "list_countries PostgreSQL db3 (Some ''Africa'') None (Some ''newest'') = [nigeria, ghana]
   \<and> list_countries PostgreSQL db3 (Some ''Asia'') None (Some ''gdp_asc'') = []
   \<and> sorted (map gdp_value
        (filter has_gdp (list_countries PostgreSQL db3 None (Some ''EUR'') (Some ''gdp_asc''))))
   \<and> sorted (rev (map gdp_value
        (filter has_gdp (list_countries PostgreSQL db3 (Some ''Africa'') None (Some ''gdp_desc'')))))"
proof -
  have africa: "filter (\<lambda>r. filter_given (Some ''Africa'') (region r)
                           \<and> filter_given None (currency_code r)) (countries db3)
                  = [nigeria, ghana]"
    by (simp add: sample_rows filter_given_def)
  have asia: "filter (\<lambda>r. filter_given (Some ''Asia'') (region r)
                           \<and> filter_given None (currency_code r)) (countries db3) = []"
    by (simp add: sample_rows filter_given_def)
  from C8_list_countries [of PostgreSQL db3 "Some ''Africa''" None "Some ''newest''"] africa
  have "list_countries PostgreSQL db3 (Some ''Africa'') None (Some ''newest'') = [nigeria, ghana]"
    by simp
  moreover from C8_list_countries [of PostgreSQL db3 "Some ''Asia''" None "Some ''gdp_asc''"] asia
  have "list_countries PostgreSQL db3 (Some ''Asia'') None (Some ''gdp_asc'') = []"
    by simp
  moreover from C8_list_countries [of PostgreSQL db3 None "Some ''EUR''" "Some ''gdp_asc''"]
  have "sorted (map gdp_value
        (filter has_gdp (list_countries PostgreSQL db3 None (Some ''EUR'') (Some ''gdp_asc''))))"
    by simp
  moreover from C8_list_countries [of PostgreSQL db3 "Some ''Africa''" None "Some ''gdp_desc''"]
  have "sorted (rev (map gdp_value
        (filter has_gdp (list_countries PostgreSQL db3 (Some ''Africa'') None (Some ''gdp_desc'')))))"
    by simp
  ultimately show ?thesis by simp
qed

text \<open>
  The claim as written fails for a region parameter that is given and empty
  (\<^verbatim>\<open>GET /countries?region=\<close>): no filter is applied, and the result holds rows whose
  region is not the empty string.
\<close>

theorem C8_counterexample:
  "list_countries SQLite db3 (Some []) None None = [nigeria, france, ghana]
   \<and> region nigeria \<noteq> JStr []"
  by (simp add: list_countries_def sample_rows)

section \<open>Refreshing twice\<close>

text \<open>
  Whether the loop body raises, skips or stores a record, and under which name, does not
  depend on the random draws, the clock or the float parser.
\<close>

lemma derive_Inl_iff:
  "(derive e rates code pop k = Inl x) = (truthy code \<and> py_in code rates = Inl x)"
proof (cases "truthy code")
  case False
  then show ?thesis by (simp add: derive_def)
next
  case True
  show ?thesis
  proof (cases "py_in code rates")
    case (Inl y)
    with True show ?thesis by (simp add: derive_def)
  next
    case (Inr found)
    with True show ?thesis
      by (simp add: derive_def split: option.split)
  qed
qed


lemma isl_derive:
  "isl (derive e rates code pop k) = (truthy code \<and> isl (py_in code rates))"
proof (cases "derive e rates code pop k")
  case (Inl x)
  then have "truthy code \<and> py_in code rates = Inl x" by (simp add: derive_Inl_iff)
  with Inl show ?thesis by simp
next
  case (Inr r)
  have "\<not> (truthy code \<and> isl (py_in code rates))"
  proof
    assume a: "truthy code \<and> isl (py_in code rates)"
    then obtain x where "py_in code rates = Inl x" by (cases "py_in code rates") auto
    with a have "derive e rates code pop k = Inl x" by (simp add: derive_Inl_iff)
    with Inr show False by simp
  qed
  with Inr show ?thesis by simp
qed

lemma prepare_rel:
  "rel_sum (=) (rel_option (\<lambda>a b. name (fst a) = name (fst b)))
     (prepare e1 rates c k1) (prepare e2 rates c k2)"
proof (cases c)
  case (JObj kvs)
  let ?code = "first_currency_code (py_or (py_get kvs ''currencies'') (JArr []))"
  let ?pop = "py_get kvs ''population''"
  show ?thesis
  proof (cases "\<not> truthy (py_get kvs ''name'') \<or> ?pop = JNull")
    case True
    then show ?thesis by (simp add: JObj prepare_skip)
  next
    case False
    show ?thesis
    proof (cases "derive e1 rates ?code ?pop k1")
      case (Inl x)
      then have "derive e2 rates ?code ?pop k2 = Inl x" by (simp add: derive_Inl_iff)
      with Inl False show ?thesis by (simp add: JObj prepare_def Let_def)
    next
      case (Inr r1)
      then have "\<not> isl (derive e1 rates ?code ?pop k1)" by simp
      then have "\<not> isl (derive e2 rates ?code ?pop k2)" by (simp add: isl_derive)
      then obtain r2 where r2: "derive e2 rates ?code ?pop k2 = Inr r2"
        by (cases "derive e2 rates ?code ?pop k2") simp_all
      obtain a1 b1 c1 where r1: "r1 = (a1, b1, c1)" by (rule prod_cases3)
      obtain a2 b2 c2 where r2': "r2 = (a2, b2, c2)" by (rule prod_cases3)
      from Inr r2 r1 r2' False show ?thesis
        by (cases "py_get kvs ''name''") (simp_all add: JObj prepare_def Let_def)
    qed
  qed
qed (simp_all add: prepare_def)


lemma prepare_same_name:
  assumes "prepare e1 rates c k1 = Inr (Some (v1, j1))"
  shows "\<exists>v2 j2. prepare e2 rates c k2 = Inr (Some (v2, j2)) \<and> name v2 = name v1"
proof -
  from prepare_rel [of e1 rates c k1 e2 k2] assms
  show ?thesis
    by (cases "prepare e2 rates c k2") (auto simp: option_rel_Some1)
qed

lemma same_name_fun: "same_name n = (\<lambda>r. lower (name r) = lower n)"
  by (rule ext) (simp add: same_name_def)

lemma count_matches:
  assumes "map name xs = map name ys"
  shows "length (filter (same_name n) xs) = length (filter (same_name n) ys)"
proof -
  have eq: "length (filter (same_name n) zs)
          = length (filter (\<lambda>m. lower m = lower n) (map name zs))" for zs
    by (induction zs) (simp_all add: same_name_def)
  show ?thesis by (simp only: eq assms)
qed

lemma names_overwrite:
  "map name (map (\<lambda>r. if r = x then overwrite r v else r) rs) = map name rs"
  "map (name \<circ> (\<lambda>r. if r = x then overwrite r v else r)) rs = map name rs"
  by (induction rs) (simp_all add: overwrite_def)

lemma upsert_frame:
  assumes "upsert v s = Inr s'"
  shows "map name (rows s') = map name (rows s)
         \<and> (pending s' = pending s \<or> pending s' = pending s @ [v])
         \<and> meta_rows s' = meta_rows s \<and> meta_pending s' = meta_pending s
         \<and> (lower (name v) \<in> lower ` set (map name (rows s))
            \<or> lower (name v) \<in> lower ` set (map name (pending s')))"
proof -
  from upsert_stores [OF assms] show ?thesis
  proof
    assume "\<exists>existing. filter (same_name (name v)) (rows s) = [existing]
            \<and> s' = s\<lparr>rows := map (\<lambda>r. if r = existing then overwrite r v else r) (rows s)\<rparr>"
    then obtain existing where hit: "filter (same_name (name v)) (rows s) = [existing]"
      and s': "s' = s\<lparr>rows := map (\<lambda>r. if r = existing then overwrite r v else r) (rows s)\<rparr>"
      by blast
    from hit have "existing \<in> set (filter (same_name (name v)) (rows s))" by simp
    then have "existing \<in> set (rows s)" and "lower (name existing) = lower (name v)"
      by (simp_all add: same_name_def)
    then have "lower (name v) \<in> lower ` set (map name (rows s))"
      by (metis image_eqI image_set)
    with s' show ?thesis by (simp add: names_overwrite overwrite_def)
  next
    assume "filter (same_name (name v)) (rows s) = [] \<and> s' = s\<lparr>pending := pending s @ [v]\<rparr>"
    then show ?thesis by simp
  qed
qed

lemma upsert_known_name:
  assumes "lower (name v) \<in> lower ` set (map name (rows s))" and "upsert v s = Inr s'"
  shows "pending s' = pending s"
proof -
  from assms(1) obtain r where "r \<in> set (rows s)" and "lower (name r) = lower (name v)"
    by auto
  then have "filter (same_name (name v)) (rows s) \<noteq> []"
    by (auto simp: filter_empty_conv same_name_def)
  with upsert_stores [OF assms(2)] show ?thesis by auto
qed


lemma refresh_record_frame:
  assumes "refresh_record e rates c s = Inr s'"
  shows "map name (rows s') = map name (rows s)
         \<and> (\<exists>extra. pending s' = pending s @ extra)
         \<and> meta_rows s' = meta_rows s \<and> meta_pending s' = meta_pending s
         \<and> (\<forall>e' k v j. prepare e' rates c k = Inr (Some (v, j)) \<longrightarrow>
               lower (name v) \<in> lower ` set (map name (rows s))
                                 \<union> lower ` set (map name (pending s')))"
proof (cases "prepare e rates c (draws s)")
  case (Inl x)
  with assms show ?thesis by (simp add: refresh_record_def)
next
  case (Inr r)
  show ?thesis
  proof (cases r)
    case None
    with Inr assms have same: "s' = s" by (simp add: refresh_record_def)
    have "prepare e' rates c k \<noteq> Inr (Some (v, j))" for e' k v j
    proof
      assume "prepare e' rates c k = Inr (Some (v, j))"
      from prepare_same_name [OF this, of e "draws s"] Inr None show False by simp
    qed
    with same show ?thesis by simp
  next
    case (Some vk)
    obtain v0 k0 where vk: "vk = (v0, k0)" by (cases vk)
    with Inr Some assms have up: "upsert v0 (s\<lparr>draws := k0\<rparr>) = Inr s'"
      by (simp add: refresh_record_def)
    note fr = upsert_frame [OF up]
    have "lower (name v) \<in> lower ` set (map name (rows s))
                                 \<union> lower ` set (map name (pending s'))"
      if "prepare e' rates c k = Inr (Some (v, j))" for e' k v j
    proof -
      from prepare_same_name [OF that, of e "draws s"] Inr Some vk
      have "name v0 = name v" by simp
      with fr show ?thesis by auto
    qed
    moreover from fr have "\<exists>extra. pending s' = pending s @ extra" by auto
    ultimately show ?thesis using fr by simp
  qed
qed

lemma refresh_loop_frame:
  assumes "refresh_loop e rates cs s = Inr s'"
  shows "map name (rows s') = map name (rows s)
         \<and> (\<exists>extra. pending s' = pending s @ extra)
         \<and> meta_rows s' = meta_rows s \<and> meta_pending s' = meta_pending s
         \<and> (\<forall>c \<in> set cs. \<forall>e' k v j. prepare e' rates c k = Inr (Some (v, j)) \<longrightarrow>
               lower (name v) \<in> lower ` set (map name (rows s))
                                 \<union> lower ` set (map name (pending s')))"
  using assms
proof (induction cs arbitrary: s)
  case Nil
  then show ?case by simp
next
  case (Cons c cs)
  from Cons.prems obtain s1 where step: "refresh_record e rates c s = Inr s1"
    and rest: "refresh_loop e rates cs s1 = Inr s'"
    by (auto split: sum.splits)
  note f1 = refresh_record_frame [OF step]
  note f2 = Cons.IH [OF rest]
  from f1 obtain x1 where x1: "pending s1 = pending s @ x1" by blast
  from f2 obtain x2 where x2: "pending s' = pending s1 @ x2" by blast
  have grow: "set (map name (pending s1)) \<subseteq> set (map name (pending s'))"
    using x2 by auto
  have a: "map name (rows s') = map name (rows s)" using f1 f2 by simp
  have b: "\<exists>extra. pending s' = pending s @ extra" using x1 x2 by simp
  have c: "meta_rows s' = meta_rows s \<and> meta_pending s' = meta_pending s" using f1 f2 by simp
  have d: "lower (name v) \<in> lower ` set (map name (rows s))
                                 \<union> lower ` set (map name (pending s'))"
    if "c' \<in> set (c # cs)" and "prepare e' rates c' k = Inr (Some (v, j))" for c' e' k v j
  proof (cases "c' = c")
    case True
    with f1 that(2) have "lower (name v) \<in> lower ` set (map name (rows s))
                                 \<union> lower ` set (map name (pending s1))" by blast
    with grow show ?thesis by blast
  next
    case False
    with that(1) have "c' \<in> set cs" by simp
    with f2 that(2) have "lower (name v) \<in> lower ` set (map name (rows s1))
                                 \<union> lower ` set (map name (pending s'))" by blast
    with f1 show ?thesis by simp
  qed
  from a b c d show ?case by blast
qed

lemma refresh_loop_known_names:
  assumes "\<forall>c \<in> set cs. \<forall>e' k v j. prepare e' rates c k = Inr (Some (v, j)) \<longrightarrow>
               lower (name v) \<in> lower ` set (map name (rows s))"
    and "refresh_loop e rates cs s = Inr s'"
  shows "pending s' = pending s"
  using assms
proof (induction cs arbitrary: s)
  case Nil
  then show ?case by simp
next
  case (Cons c cs)
  from Cons.prems(2) obtain s1 where step: "refresh_record e rates c s = Inr s1"
    and rest: "refresh_loop e rates cs s1 = Inr s'"
    by (auto split: sum.splits)
  have rows1: "map name (rows s1) = map name (rows s)"
    using refresh_record_frame [OF step] by simp
  have "pending s1 = pending s"
  proof (cases "prepare e rates c (draws s)")
    case (Inl x)
    with step show ?thesis by (simp add: refresh_record_def)
  next
    case (Inr r)
    show ?thesis
    proof (cases r)
      case None
      with Inr step show ?thesis by (simp add: refresh_record_def)
    next
      case (Some vk)
      obtain v0 k0 where vk: "vk = (v0, k0)" by (cases vk)
      with Inr Some step have up: "upsert v0 (s\<lparr>draws := k0\<rparr>) = Inr s1"
        by (simp add: refresh_record_def)
      from Inr Some vk have here: "prepare e rates c (draws s) = Inr (Some (v0, k0))"
        by simp
      from Cons.prems(1)
      have "\<forall>e' k v j. prepare e' rates c k = Inr (Some (v, j)) \<longrightarrow>
               lower (name v) \<in> lower ` set (map name (rows s))"
        by simp
      with here have "lower (name v0) \<in> lower ` set (map name (rows s))" by blast
      then have "lower (name v0) \<in> lower ` set (map name (rows (s\<lparr>draws := k0\<rparr>)))" by simp
      from upsert_known_name [OF this up] show ?thesis by simp
    qed
  qed
  moreover have "pending s' = pending s1"
  proof (rule Cons.IH [OF _ rest])
    from Cons.prems(1) rows1
    show "\<forall>c \<in> set cs. \<forall>e' k v j. prepare e' rates c k = Inr (Some (v, j)) \<longrightarrow>
               lower (name v) \<in> lower ` set (map name (rows s1))"
      by simp
  qed
  ultimately show ?case by simp
qed


lemma one_or_none_shape:
  assumes "length xs = length ys"
  shows "rel_sum (\<lambda>x y. True) (rel_option (\<lambda>x y. True)) (one_or_none xs) (one_or_none ys)"
proof (cases xs)
  case Nil
  with assms show ?thesis by simp
next
  case (Cons a as)
  with assms obtain b bs where ys: "ys = b # bs" and len: "length as = length bs"
    by (cases ys) simp_all
  show ?thesis
  proof (cases as)
    case Nil
    with len Cons ys show ?thesis by simp
  next
    case (Cons a' as')
    with len obtain b' bs' where "bs = b' # bs'" by (cases bs) simp_all
    with Cons \<open>xs = a # as\<close> ys show ?thesis by simp
  qed
qed

lemma upsert_rel:
  assumes "names_rel s t" and "name v = name v'"
  shows "rel_sum (\<lambda>x y. True) names_rel (upsert v s) (upsert v' t)"
proof -
  let ?hs = "filter (same_name (name v)) (rows s)"
  let ?ht = "filter (same_name (name v')) (rows t)"
  from assms(1) have "map name (rows s) = map name (rows t)"
    by (simp add: names_rel_def)
  from count_matches [OF this, of "name v"] assms(2) have "length ?hs = length ?ht"
    by simp
  note shape = one_or_none_shape [OF this]
  from assms(1) have rows: "map name (rows s) = map name (rows t)"
    and pend: "map name (pending s) = map name (pending t)"
    and m1: "map fst (meta_rows s) = map fst (meta_rows t)"
    and m2: "map fst (meta_pending s) = map fst (meta_pending t)"
    by (simp_all add: names_rel_def)
  show ?thesis
  proof (cases "one_or_none ?hs")
    case (Inl x)
    with shape obtain y where "one_or_none ?ht = Inl y"
      by (cases "one_or_none ?ht") simp_all
    with Inl show ?thesis by (simp add: upsert_def)
  next
    case (Inr r)
    with shape obtain r' where r': "one_or_none ?ht = Inr r'"
      and rel: "rel_option (\<lambda>x y. True) r r'"
      by (cases "one_or_none ?ht") simp_all
    show ?thesis
    proof (cases r)
      case None
      with rel have "r' = None" by simp
      with None Inr r' rows pend m1 m2 assms(2) show ?thesis
        by (simp add: upsert_def names_rel_def)
    next
      case (Some a)
      with rel obtain b where "r' = Some b" by (cases r') simp_all
      with Some Inr r' rows pend m1 m2 show ?thesis
        by (simp add: upsert_def names_rel_def names_overwrite)
    qed
  qed
qed

lemma names_rel_draws: "names_rel (s\<lparr>draws := k\<rparr>) (t\<lparr>draws := j\<rparr>) = names_rel s t"
  by (simp add: names_rel_def)

lemma refresh_record_rel:
  assumes "names_rel s t"
  shows "rel_sum (\<lambda>x y. True) names_rel
           (refresh_record e1 rates c s) (refresh_record e2 rates c t)"
proof -
  note pr = prepare_rel [of e1 rates c "draws s" e2 "draws t"]
  show ?thesis
  proof (cases "prepare e1 rates c (draws s)")
    case (Inl x)
    with pr have "prepare e2 rates c (draws t) = Inl x"
      by (cases "prepare e2 rates c (draws t)") simp_all
    with Inl show ?thesis by (simp add: refresh_record_def)
  next
    case (Inr r1)
    with pr obtain r2 where r2: "prepare e2 rates c (draws t) = Inr r2"
      and rel: "rel_option (\<lambda>a b. name (fst a) = name (fst b)) r1 r2"
      by (cases "prepare e2 rates c (draws t)") simp_all
    show ?thesis
    proof (cases r1)
      case None
      with rel have "r2 = None" by simp
      with None Inr r2 assms show ?thesis by (simp add: refresh_record_def)
    next
      case (Some a)
      with rel obtain b where b: "r2 = Some b" and nm: "name (fst a) = name (fst b)"
        by (cases r2) simp_all
      obtain v1 k1 where a: "a = (v1, k1)" by (cases a)
      obtain v2 k2 where b': "b = (v2, k2)" by (cases b)
      from assms have "names_rel (s\<lparr>draws := k1\<rparr>) (t\<lparr>draws := k2\<rparr>)"
        by (simp add: names_rel_draws)
      from upsert_rel [OF this, of v1 v2] nm a b'
      have "rel_sum (\<lambda>x y. True) names_rel
              (upsert v1 (s\<lparr>draws := k1\<rparr>)) (upsert v2 (t\<lparr>draws := k2\<rparr>))"
        by simp
      with Inr r2 Some b a b' show ?thesis by (simp add: refresh_record_def)
    qed
  qed
qed

lemma refresh_loop_rel:
  assumes "names_rel s t"
  shows "rel_sum (\<lambda>x y. True) names_rel
           (refresh_loop e1 rates cs s) (refresh_loop e2 rates cs t)"
  using assms
proof (induction cs arbitrary: s t)
  case Nil
  then show ?case by simp
next
  case (Cons c cs)
  note step = refresh_record_rel [OF Cons.prems, of e1 rates c e2]
  show ?case
  proof (cases "refresh_record e1 rates c s")
    case (Inl x)
    with step obtain y where "refresh_record e2 rates c t = Inl y"
      by (cases "refresh_record e2 rates c t") simp_all
    with Inl show ?thesis by simp
  next
    case (Inr s1)
    with step obtain t1 where t1: "refresh_record e2 rates c t = Inr t1"
      and rel: "names_rel s1 t1"
      by (cases "refresh_record e2 rates c t") simp_all
    from Cons.IH [OF rel] Inr t1 show ?thesis by simp
  qed
qed


lemma set_meta_frame:
  assumes "set_meta key val s = Inr s'"
  shows "rows s' = rows s \<and> pending s' = pending s"
proof (cases "one_or_none (filter (\<lambda>m. fst m = key) (meta_rows s))")
  case (Inl x)
  with assms show ?thesis by (simp add: set_meta_def)
next
  case (Inr r)
  with assms show ?thesis by (cases r) (auto simp: set_meta_def)
qed

lemma count_keys:
  assumes "map fst xs = map fst ys"
  shows "length (filter (\<lambda>m. fst m = key) xs) = length (filter (\<lambda>m. fst m = key) ys)"
proof -
  have eq: "length (filter (\<lambda>m. fst m = key) zs)
          = length (filter (\<lambda>k. k = key) (map fst zs))" for zs
    by (induction zs) simp_all
  show ?thesis by (simp only: eq assms)
qed

lemma keys_update:
  "map fst (map (\<lambda>r. if r = m then (fst r, val) else r) ms) = map fst ms"
  "map (fst \<circ> (\<lambda>r. if r = m then (fst r, val) else r)) ms = map fst ms"
  by (induction ms) simp_all

lemma set_meta_rel:
  assumes "names_rel s t"
  shows "rel_sum (\<lambda>x y. True) names_rel (set_meta key v1 s) (set_meta key v2 t)"
proof -
  let ?hs = "filter (\<lambda>m. fst m = key) (meta_rows s)"
  let ?ht = "filter (\<lambda>m. fst m = key) (meta_rows t)"
  from assms have rows: "map name (rows s) = map name (rows t)"
    and pend: "map name (pending s) = map name (pending t)"
    and m1: "map fst (meta_rows s) = map fst (meta_rows t)"
    and m2: "map fst (meta_pending s) = map fst (meta_pending t)"
    by (simp_all add: names_rel_def)
  note shape = one_or_none_shape [OF count_keys [OF m1, of key]]
  show ?thesis
  proof (cases "one_or_none ?hs")
    case (Inl x)
    with shape obtain y where "one_or_none ?ht = Inl y"
      by (cases "one_or_none ?ht") simp_all
    with Inl show ?thesis by (simp add: set_meta_def)
  next
    case (Inr r)
    with shape obtain r' where r': "one_or_none ?ht = Inr r'"
      and rel: "rel_option (\<lambda>x y. True) r r'"
      by (cases "one_or_none ?ht") simp_all
    show ?thesis
    proof (cases r)
      case None
      with rel have "r' = None" by simp
      with None Inr r' rows pend m1 m2 show ?thesis
        by (simp add: set_meta_def names_rel_def)
    next
      case (Some a)
      with rel obtain b where "r' = Some b" by (cases r') simp_all
      with Some Inr r' rows pend m1 m2 show ?thesis
        by (simp add: set_meta_def names_rel_def keys_update)
    qed
  qed
qed

lemma isl_commit:
  "isl (commit db s) =
     (\<not> (distinct (map name (pending s))
         \<and> (\<forall>n \<in> set (map name (pending s)). n \<notin> set (map name (rows s)))
         \<and> distinct (map fst (meta_pending s))
         \<and> (\<forall>k \<in> set (map fst (meta_pending s)). k \<notin> set (map fst (meta_rows s)))))"
  by (auto simp: commit_def list_all_iff)

lemma commit_isl_rel:
  assumes "names_rel s t"
  shows "isl (commit db s) = isl (commit db' t)"
proof -
  from assms have "map name (rows s) = map name (rows t)"
    and "map name (pending s) = map name (pending t)"
    and "map fst (meta_rows s) = map fst (meta_rows t)"
    and "map fst (meta_pending s) = map fst (meta_pending t)"
    by (simp_all add: names_rel_def)
  then show ?thesis by (simp only: isl_commit)
qed

lemma names_assign_ids: "map name (assign_ids n ps) = map name ps"
  by (induction ps arbitrary: n) simp_all

lemma commit_countries:
  assumes "commit db s = Inr db'"
  shows "map name (countries db') = map name (rows s) @ map name (pending s)"
  using assms by (auto simp: commit_def names_assign_ids split: if_splits)

lemma names_rel_refl: "names_rel s s"
  by (simp add: names_rel_def)

lemma transaction_failure_independent:
  "isl (transaction e1 countries_data rates db) = isl (transaction e2 countries_data rates db)"
proof (cases "py_iter countries_data")
  case (Inl x)
  then show ?thesis by (simp add: transaction_def)
next
  case (Inr cs)
  note loop = refresh_loop_rel [OF names_rel_refl, of e1 rates cs "begin_txn db" e2]
  show ?thesis
  proof (cases "refresh_loop e1 rates cs (begin_txn db)")
    case (Inl x)
    with loop obtain y where "refresh_loop e2 rates cs (begin_txn db) = Inl y"
      by (cases "refresh_loop e2 rates cs (begin_txn db)") simp_all
    with Inl Inr show ?thesis by (simp add: transaction_def)
  next
    case s1: (Inr s1)
    with loop obtain t1 where t1: "refresh_loop e2 rates cs (begin_txn db) = Inr t1"
      and rel1: "names_rel s1 t1"
      by (cases "refresh_loop e2 rates cs (begin_txn db)") simp_all
    note sm = set_meta_rel [OF rel1, of "''last_refreshed_at''" "now e1" "now e2"]
    show ?thesis
    proof (cases "set_meta ''last_refreshed_at'' (now e1) s1")
      case (Inl x)
      with sm obtain y where "set_meta ''last_refreshed_at'' (now e2) t1 = Inl y"
        by (cases "set_meta ''last_refreshed_at'' (now e2) t1") simp_all
      with Inl Inr s1 t1 show ?thesis by (simp add: transaction_def)
    next
      case s2: (Inr s2)
      with sm obtain t2 where t2: "set_meta ''last_refreshed_at'' (now e2) t1 = Inr t2"
        and rel2: "names_rel s2 t2"
        by (cases "set_meta ''last_refreshed_at'' (now e2) t1") simp_all
      from commit_isl_rel [OF rel2, of db db] Inr s1 t1 s2 t2
      show ?thesis by (simp add: transaction_def)
    qed
  qed
qed


lemma transaction_second_run:
  assumes "transaction e1 countries_data rates db = Inr db1"
    and "transaction e2 countries_data rates db1 = Inr db2"
  shows "map name (countries db2) = map name (countries db1)"
proof -
  from assms(1) obtain cs s1 s1' where it: "py_iter countries_data = Inr cs"
    and loop1: "refresh_loop e1 rates cs (begin_txn db) = Inr s1"
    and sm1: "set_meta ''last_refreshed_at'' (now e1) s1 = Inr s1'"
    and c1: "commit db s1' = Inr db1"
    by (auto simp: transaction_def split: sum.splits)
  from assms(2) it obtain s2 s2' where
        loop2: "refresh_loop e2 rates cs (begin_txn db1) = Inr s2"
    and sm2: "set_meta ''last_refreshed_at'' (now e2) s2 = Inr s2'"
    and c2: "commit db1 s2' = Inr db2"
    by (auto simp: transaction_def split: sum.splits)
  note f1 = refresh_loop_frame [OF loop1]
  from f1 have rows1: "map name (rows s1) = map name (countries db)"
    by (simp add: begin_txn_def)
  from f1 have pend1: "pending (begin_txn db) = []" by (simp add: begin_txn_def)
  from commit_countries [OF c1] set_meta_frame [OF sm1] rows1
  have names1: "map name (countries db1) = map name (countries db) @ map name (pending s1)"
    by simp
  have known: "\<forall>c \<in> set cs. \<forall>e' k v j. prepare e' rates c k = Inr (Some (v, j)) \<longrightarrow>
                 lower (name v) \<in> lower ` set (map name (rows (begin_txn db1)))"
  proof (intro ballI allI impI)
    fix c e' k v j
    assume "c \<in> set cs" and "prepare e' rates c k = Inr (Some (v, j))"
    with f1 have "lower (name v) \<in> lower ` set (map name (rows (begin_txn db)))
                                 \<union> lower ` set (map name (pending s1))"
      by blast
    then have "lower (name v) \<in> lower ` set (map name (countries db) @ map name (pending s1))"
      by (simp add: begin_txn_def image_Un)
    with names1 show "lower (name v) \<in> lower ` set (map name (rows (begin_txn db1)))"
      by (simp add: begin_txn_def)
  qed
  from refresh_loop_known_names [OF known loop2] have pend2: "pending s2 = []"
    by (simp add: begin_txn_def)
  from refresh_loop_frame [OF loop2] have rows2: "map name (rows s2) = map name (countries db1)"
    by (simp add: begin_txn_def)
  from commit_countries [OF c2] set_meta_frame [OF sm2] rows2 pend2
  show ?thesis by simp
qed

lemma refresh_store_run:
  assumes "map_of ed ''rates'' = Some rates"
  shows "store (snd (refresh_countries e be (Some countries_data) (Some (JObj ed)) w)) =
           (case transaction e countries_data rates (store w) of
              Inl x \<Rightarrow> store w | Inr db' \<Rightarrow> db')"
  using assms
  by (simp add: refresh_countries_def generate_summary_image_def split: sum.split)

lemma refresh_store_unavailable:
  assumes "\<not> (\<exists>countries_data ed rates.
              cf = Some countries_data \<and> ef = Some (JObj ed) \<and> map_of ed ''rates'' = Some rates)"
  shows "snd (refresh_countries e be cf ef w) = w"
  using assms by (auto simp: refresh_countries_def split: option.splits json.splits)

text \<open>
  Claim C7. Take any state, any feeds and two refreshes of the same feeds, one after the
  other, each with its own random draws, clock and file system. The table after the
  second refresh has the same names in the same order as after the first, hence the same
  row count and the same set of names. (A refresh that fails leaves the table as it
  was.)
\<close>

theorem C7_refresh_twice_same_names:
  "map name (countries (store (snd (refresh_countries e2 be2 cf ef
                                      (snd (refresh_countries e1 be1 cf ef w))))))
     = map name (countries (store (snd (refresh_countries e1 be1 cf ef w))))
   \<and> length (countries (store (snd (refresh_countries e2 be2 cf ef
                                      (snd (refresh_countries e1 be1 cf ef w))))))
     = length (countries (store (snd (refresh_countries e1 be1 cf ef w))))
   \<and> set (map name (countries (store (snd (refresh_countries e2 be2 cf ef
                                      (snd (refresh_countries e1 be1 cf ef w)))))))
     = set (map name (countries (store (snd (refresh_countries e1 be1 cf ef w)))))"
proof -
  let ?w1 = "snd (refresh_countries e1 be1 cf ef w)"
  let ?w2 = "snd (refresh_countries e2 be2 cf ef ?w1)"
  have names: "map name (countries (store ?w2)) = map name (countries (store ?w1))"
  proof (cases "\<exists>countries_data ed rates.
              cf = Some countries_data \<and> ef = Some (JObj ed) \<and> map_of ed ''rates'' = Some rates")
    case False
    from refresh_store_unavailable [OF False] show ?thesis by simp
  next
    case True
    then obtain cd ed rates where cf: "cf = Some cd" and ef: "ef = Some (JObj ed)"
      and rates: "map_of ed ''rates'' = Some rates"
      by blast
    note st1 = refresh_store_run [OF rates, of e1 be1 cd w]
    note st2 = refresh_store_run [OF rates, of e2 be2 cd ?w1]
    show ?thesis
    proof (cases "transaction e1 cd rates (store w)")
      case (Inl x)
      with st1 cf ef have w1: "store ?w1 = store w" by simp
      from Inl have "isl (transaction e1 cd rates (store w))" by simp
      then have "isl (transaction e2 cd rates (store w))"
        by (simp only: transaction_failure_independent [of e2 cd rates "store w" e1])
      then obtain y where "transaction e2 cd rates (store w) = Inl y"
        by (cases "transaction e2 cd rates (store w)") simp_all
      with st2 cf ef w1 show ?thesis by simp
    next
      case (Inr db1)
      with st1 cf ef have w1: "store ?w1 = db1" by simp
      show ?thesis
      proof (cases "transaction e2 cd rates db1")
        case (Inl y)
        with st2 cf ef w1 show ?thesis by simp
      next
        case second: (Inr db2)
        with st2 cf ef w1 have "store ?w2 = db2" by simp
        with w1 transaction_second_run [OF Inr second] show ?thesis by simp
      qed
    qed
  qed
  from names have len: "length (countries (store ?w2)) = length (countries (store ?w1))"
    by (rule map_eq_imp_length_eq)
  from names have "set (map name (countries (store ?w2)))
                     = set (map name (countries (store ?w1)))"
    by (simp only:)
  with names len show ?thesis by (simp only: simp_thms)
qed

theorem C7_witness:
  "map name (countries (store (snd (refresh_countries env_later PostgreSQL
        (Some (JArr [testland])) (Some exchange_abc)
        (snd (refresh_countries env0 SQLite (Some (JArr [testland])) (Some exchange_abc)
               world0))))))
     = [''Testland'']"
proof -
  have first: "map name (countries (store (snd (refresh_countries env0 SQLite
        (Some (JArr [testland])) (Some exchange_abc) world0)))) = [''Testland'']"
    by (simp add: eval_defs)
  from C7_refresh_twice_same_names
         [of env_later PostgreSQL "Some (JArr [testland])" "Some exchange_abc" env0 SQLite world0]
       first
  show ?thesis by simp
qed

end
